theory Spec2Isabelle
  imports Main
begin

section \<open>Data model of the document store\<close>

text \<open>
  Organization identifiers are the \<open>_id\<close> strings of the request documents.
  A request document carries its subscriptions (\<open>report_types\<close>) and its child
  organizations (\<open>children\<close>); a notification document carries its
  \<open>ticket_owner\<close> and its \<open>generated_for\<close> list.
\<close>

type_synonym org_id = string

record request_doc =
  doc_id :: org_id
  report_types :: "string list"
  children :: "org_id list"

record notification_doc =
  ticket_owner :: org_id
  generated_for :: "org_id list"

record db =
  requests :: "request_doc list"
  notifications :: "notification_doc list"

subsection \<open>Queries\<close>

text \<open>\<open>db.notifications.distinct("ticket_owner")\<close>\<close>

definition distinct_ticket_owner :: "db \<Rightarrow> org_id list" where
  "distinct_ticket_owner d = remdups (map ticket_owner (notifications d))"

text \<open>\<open>find({"_id": {"$in": ticket_owner_ids}, "report_types": "CYHY"}, {"_id": 1})\<close>\<close>

definition find_owner_requests :: "db \<Rightarrow> org_id list \<Rightarrow> request_doc list" where
  "find_owner_requests d ticket_owner_ids =
     filter (\<lambda>r. doc_id r \<in> set ticket_owner_ids \<and> ''CYHY'' \<in> set (report_types r)) (requests d)"

text \<open>\<open>find({"children": org_id, "report_types": "CYHY"}, {"_id": 1})\<close>\<close>

definition find_parent_requests :: "db \<Rightarrow> org_id \<Rightarrow> request_doc list" where
  "find_parent_requests d org =
     filter (\<lambda>r. org \<in> set (children r) \<and> ''CYHY'' \<in> set (report_types r)) (requests d)"

text \<open>
  The two filters that \<open>main\<close> hands to \<open>delete_many\<close>:
  \<open>{"generated_for": {"$ne": []}}\<close> and \<open>{"ticket_owner": {"$nin": ids}}\<close>.
\<close>

datatype query = GeneratedForNeEmpty | TicketOwnerNin "org_id list"

fun matches :: "query \<Rightarrow> notification_doc \<Rightarrow> bool" where
  "matches GeneratedForNeEmpty n = (generated_for n \<noteq> [])"
| "matches (TicketOwnerNin ids) n = (ticket_owner n \<notin> set ids)"

text \<open>
  \<open>db.NotificationDoc.collection.delete_many(q)\<close>: the deleted count and the
  store without the matching documents.
\<close>

definition delete_many :: "query \<Rightarrow> db \<Rightarrow> nat \<times> db" where
  "delete_many q d =
     (length (filter (matches q) (notifications d)),
      d\<lparr>notifications := filter (\<lambda>n. \<not> matches q n) (notifications d)\<rparr>)"

section \<open>Org resolver\<close>

text \<open>
  \<open>find_cyhy_parents\<close> calls itself once for every marked parent it finds and has
  no visited set. The first argument of the model is the recursion depth still available
  to the interpreter: a call at depth 0 is the \<open>RecursionError\<close> that Python raises
  when the limit is exceeded, written \<open>None\<close>; the exception leaves every enclosing
  loop, so a \<open>None\<close> of a recursive call is the \<open>None\<close> of the caller.
  The \<open>print\<close> calls are left out.
\<close>

fun parents_loop ::
  "(org_id \<Rightarrow> org_id set option) \<Rightarrow> request_doc list \<Rightarrow> org_id set \<Rightarrow> org_id set option" where
  "parents_loop recur [] cyhy_parents = Some cyhy_parents"
| "parents_loop recur (request # rest) cyhy_parents =
     (case recur (doc_id request) of
        None \<Rightarrow> None
      | Some found \<Rightarrow> parents_loop recur rest (insert (doc_id request) cyhy_parents \<union> found))"

fun find_cyhy_parents :: "nat \<Rightarrow> db \<Rightarrow> org_id \<Rightarrow> org_id set option" where
  "find_cyhy_parents 0 d org = None"
| "find_cyhy_parents (Suc depth) d org =
     parents_loop (\<lambda>p. find_cyhy_parents depth d p) (find_parent_requests d org) {}"

text \<open>
  The loop of \<open>build_notifications_org_list\<close> over the owner requests, with its two
  accumulators \<open>notifications_to_generate\<close> and \<open>cyhy_parent_ids\<close>.
\<close>

fun owners_loop ::
  "(org_id \<Rightarrow> org_id set option) \<Rightarrow> request_doc list \<Rightarrow> org_id set \<Rightarrow> org_id set
     \<Rightarrow> (org_id set \<times> org_id set) option" where
  "owners_loop recur [] notifications_to_generate cyhy_parent_ids =
     Some (notifications_to_generate, cyhy_parent_ids)"
| "owners_loop recur (request # rest) notifications_to_generate cyhy_parent_ids =
     (case recur (doc_id request) of
        None \<Rightarrow> None
      | Some found \<Rightarrow>
          owners_loop recur rest (insert (doc_id request) notifications_to_generate)
            (cyhy_parent_ids \<union> found))"

definition build_notifications_org_list :: "nat \<Rightarrow> db \<Rightarrow> org_id set option" where
  "build_notifications_org_list depth d =
     (case owners_loop (find_cyhy_parents depth d)
             (find_owner_requests d (distinct_ticket_owner d)) {} {} of
        None \<Rightarrow> None
      | Some (notifications_to_generate, cyhy_parent_ids) \<Rightarrow>
          Some (notifications_to_generate \<union> cyhy_parent_ids))"

subsection \<open>What the specification calls seeds, parents and ancestors\<close>

text \<open>
  Following the specification's words: P is a parent of O if O appears in P's children
  and P carries the report-type marker; the seed set is the set of ticket owners of the
  notification records that carry the marker; the ancestors of O are the organizations
  reached from O over one or more parent edges.
\<close>

definition spec_parent_edges :: "db \<Rightarrow> (org_id \<times> org_id) set" where
  "spec_parent_edges d =
     {(c, p). \<exists>r. r \<in> set (requests d) \<and> p = doc_id r \<and> c \<in> set (children r)
                  \<and> ''CYHY'' \<in> set (report_types r)}"

definition spec_ancestors :: "db \<Rightarrow> org_id \<Rightarrow> org_id set" where
  "spec_ancestors d org = {p. (org, p) \<in> (spec_parent_edges d)\<^sup>+}"

definition spec_seeds :: "db \<Rightarrow> org_id set" where
  "spec_seeds d =
     {s. \<exists>r n. r \<in> set (requests d) \<and> n \<in> set (notifications d) \<and> s = doc_id r
               \<and> ticket_owner n = s \<and> ''CYHY'' \<in> set (report_types r)}"

text \<open>No organization reachable from \<open>org\<close> over parent edges lies on a cycle.\<close>

definition cycle_free_from :: "db \<Rightarrow> org_id \<Rightarrow> bool" where
  "cycle_free_from d org =
     (\<not> (\<exists>p. (org, p) \<in> (spec_parent_edges d)\<^sup>* \<and> (p, p) \<in> (spec_parent_edges d)\<^sup>+))"

text \<open>The set the specification asks of the resolver: the seeds and all their ancestors.\<close>

definition spec_resolved :: "db \<Rightarrow> org_id set" where
  "spec_resolved d = spec_seeds d \<union> (\<Union>s \<in> spec_seeds d. spec_ancestors d s)"

definition seeds_cycle_free :: "db \<Rightarrow> bool" where
  "seeds_cycle_free d =
     (\<not> (\<exists>s p. s \<in> spec_seeds d \<and> (s, p) \<in> (spec_parent_edges d)\<^sup>*
               \<and> (p, p) \<in> (spec_parent_edges d)\<^sup>+))"

section \<open>What a run does\<close>

text \<open>
  A run is observed through the calls it makes, in order: the calls of \<open>logging\<close>
  (level and message, whatever the configured level then prints), the renderer, the
  file system, the mailer process and \<open>delete_many\<close>.
\<close>

datatype level = DEBUG | INFO | WARNING | ERROR | CRITICAL

datatype message =
    StartingPdf org_id
  | CreatedPdf org_id
  | NoNotificationsFound org_id
  | UnknownErrorOccurred org_id
  | InvalidLoggingLevel
  | PdfsCreated int
  | EmailsSent
  | FailedToEmail
  | StderrDetail string string
  | DeletedEmailed nat
  | NothingToEmail
  | DeletedNonCyhy nat

datatype event =
    Log level message
  | GenerateNotification org_id
  | CreateOutputDirectories
  | ChdirArchive
  | RemoveLatest
  | SymlinkLatest
  | ChdirMailer
  | DockerComposeUp
  | DeleteMany query

section \<open>Artifact generator\<close>

text \<open>
  \<open>NotificationGenerator(db, org_id, final=True, encrypt_key=key).generate_notification()\<close>
  is the external renderer: from the store and the organization it gives the pair
  \<open>(was_encrypted, results)\<close>, where \<open>results\<close> is \<open>None\<close> or carries a
  \<open>"notifications"\<close> collection, and it may write to the store.
\<close>

record results =
  res_notifications :: "notification_doc list"

type_synonym renderer = "db \<Rightarrow> org_id \<Rightarrow> (bool \<times> results option) \<times> db"

definition after :: "event list \<Rightarrow> int \<times> db \<times> event list \<Rightarrow> int \<times> db \<times> event list" where
  "after evs r = (case r of (num, d, evs') \<Rightarrow> (num, d, evs @ evs'))"

fun generate_loop :: "renderer \<Rightarrow> org_id list \<Rightarrow> int \<Rightarrow> db \<Rightarrow> int \<times> db \<times> event list" where
  "generate_loop gen [] num_pdfs_created d = (num_pdfs_created, d, [])"
| "generate_loop gen (org # rest) num_pdfs_created d =
     (case gen d org of
        ((was_encrypted, results), d') \<Rightarrow>
          if was_encrypted then
            after [Log INFO (StartingPdf org), GenerateNotification org, Log INFO (CreatedPdf org)]
              (generate_loop gen rest (num_pdfs_created + 1) d')
          else if (case results of None \<Rightarrow> False
                   | Some res \<Rightarrow> length (res_notifications res) = 0) then
            after [Log INFO (StartingPdf org), GenerateNotification org,
                   Log INFO (NoNotificationsFound org)]
              (generate_loop gen rest num_pdfs_created d')
          else
            (- 1, d', [Log INFO (StartingPdf org), GenerateNotification org,
                       Log ERROR (UnknownErrorOccurred org)]))"

definition generate_notification_pdfs :: "renderer \<Rightarrow> db \<Rightarrow> org_id list \<Rightarrow> int \<times> db \<times> event list" where
  "generate_notification_pdfs gen d org_ids = generate_loop gen org_ids 0 d"

subsection \<open>The three outcomes of the renderer, in the specification's words\<close>

datatype outcome = Encrypted | NoContentFound | UnknownFailure

definition classify :: "bool \<times> results option \<Rightarrow> outcome" where
  "classify r =
     (case r of (was_encrypted, results) \<Rightarrow>
        if was_encrypted then Encrypted
        else (case results of
                None \<Rightarrow> UnknownFailure
              | Some res \<Rightarrow> if res_notifications res = [] then NoContentFound else UnknownFailure))"

text \<open>
  What the renderer answers when it is called for each organization of the list in
  turn, each call on the store the previous one left.
\<close>

fun render_all :: "renderer \<Rightarrow> db \<Rightarrow> org_id list \<Rightarrow> outcome list" where
  "render_all gen d [] = []"
| "render_all gen d (org # rest) =
     (case gen d org of (r, d') \<Rightarrow> classify r # render_all gen d' rest)"

section \<open>The run\<close>

text \<open>
  The surroundings of \<open>main\<close>: whether \<open>logging.basicConfig\<close> accepts the
  log level (it raises \<open>ValueError\<close> otherwise), the renderer, what the path
  \<open>notification_archive/latest\<close> is when the run reaches it, whether the mailer
  directory exists and the \<open>docker\<close> executable is found, and what the mailer
  process gives back: \<open>data, err = p.communicate()\<close> and \<open>p.returncode\<close>.
  The mailer process is taken to leave the notification collection as it is.
  The calls before line 124 (\<open>db_from_config\<close>, \<open>create_output_directories\<close>,
  \<open>os.chdir\<close>, \<open>Config\<close>) and the operations of the store are taken to succeed.
\<close>

datatype latest_state = Absent | LinkOrFile | DanglingLink | Directory

record env =
  log_level_valid :: bool
  generate_notification :: renderer
  latest :: latest_state
  mailer_dir_exists :: bool
  docker_found :: bool
  communicate :: "string \<times> string"
  returncode :: int

datatype exn = NameError string | OSError string

datatype exit = Returned int | Raised exn

text \<open>
  Lines 129 to 137 of \<open>main\<close>: \<open>os.path.exists\<close> follows links, so it is false
  for a link whose target is gone, and \<open>os.symlink\<close> then raises because the name
  exists; \<open>os.remove\<close> raises on a directory. The result is the exception with the
  calls made before it, or the calls made.
\<close>

fun relink_latest :: "latest_state \<Rightarrow> (exn \<times> event list) + event list" where
  "relink_latest Absent = Inr [SymlinkLatest]"
| "relink_latest LinkOrFile = Inr [RemoveLatest, SymlinkLatest]"
| "relink_latest DanglingLink = Inl (OSError ''symlink'', [])"
| "relink_latest Directory = Inl (OSError ''remove'', [])"

text \<open>
  Lines 139 to 175 of \<open>main\<close>: the mailer and the deletion that follows it, or the
  message that there is nothing to email. \<open>os.chdir\<close> raises when the mailer
  directory is missing and \<open>subprocess.Popen\<close> raises when \<open>docker\<close> is not
  found; nothing in \<open>main\<close> catches either.
\<close>

definition email_notifications ::
  "env \<Rightarrow> int \<Rightarrow> db \<Rightarrow> (exn \<times> event list) + (db \<times> event list)" where
  "email_notifications e num_pdfs_created d =
     (if num_pdfs_created \<noteq> 0 then
        if \<not> mailer_dir_exists e then Inl (OSError ''chdir'', [])
        else if \<not> docker_found e then Inl (OSError ''Popen'', [ChdirMailer])
        else
          (case communicate e of
             (data, err) \<Rightarrow>
               (case delete_many GeneratedForNeEmpty d of
                  (deleted_count, d') \<Rightarrow>
                    Inr (d', [ChdirMailer, DockerComposeUp]
                         @ (if returncode e = 0 then [Log INFO EmailsSent]
                            else [Log ERROR FailedToEmail, Log ERROR (StderrDetail data err)])
                         @ [DeleteMany GeneratedForNeEmpty,
                            Log INFO (DeletedEmailed deleted_count)])))
      else Inr (d, [Log INFO NothingToEmail]))"

text \<open>
  \<open>main\<close> reads the global name \<open>cyhy_org_ids\<close> at lines 124 and 180. The first
  argument is what the name is bound to when \<open>main\<close> runs: \<open>Some ids\<close> for a
  list of organization identifiers, \<open>None\<close> when the name is unbound, where the
  lookup raises \<open>NameError\<close>. The arguments of the call at line 124 are evaluated
  after the output directory has been made and entered. An exception ends the run
  with the store as it is at that moment.
\<close>

definition main :: "org_id list option \<Rightarrow> env \<Rightarrow> db \<Rightarrow> exit \<times> db \<times> event list" where
  "main cyhy_org_ids e d =
     (if \<not> log_level_valid e then (Returned 1, d, [Log CRITICAL InvalidLoggingLevel])
      else
        (case cyhy_org_ids of
           None \<Rightarrow> (Raised (NameError ''cyhy_org_ids''), d, [CreateOutputDirectories, ChdirArchive])
         | Some ids \<Rightarrow>
             (case generate_notification_pdfs (generate_notification e) d ids of
                (num_pdfs_created, d1, generated) \<Rightarrow>
                  (case relink_latest (latest e) of
                     Inl (x, linked) \<Rightarrow>
                       (Raised x, d1,
                        [CreateOutputDirectories, ChdirArchive] @ generated
                        @ [Log INFO (PdfsCreated num_pdfs_created)] @ linked)
                   | Inr linked \<Rightarrow>
                       (case email_notifications e num_pdfs_created d1 of
                          Inl (x, emailed) \<Rightarrow>
                            (Raised x, d1,
                             [CreateOutputDirectories, ChdirArchive] @ generated
                             @ [Log INFO (PdfsCreated num_pdfs_created)] @ linked @ emailed)
                        | Inr (d2, emailed) \<Rightarrow>
                            (case delete_many (TicketOwnerNin ids) d2 of
                               (deleted_count, d3) \<Rightarrow>
                                 (Returned 0, d3,
                                  [CreateOutputDirectories, ChdirArchive] @ generated
                                  @ [Log INFO (PdfsCreated num_pdfs_created)] @ linked
                                  @ emailed
                                  @ [DeleteMany (TicketOwnerNin ids),
                                     Log INFO (DeletedNonCyhy deleted_count)])))))))"

text \<open>
  The module's top-level statements (lines 18 to 97) bind the imported modules,
  \<open>current_time\<close>, \<open>NOTIFICATIONS_BASE_DIR\<close>, \<open>NOTIFICATION_ARCHIVE_DIR\<close>,
  \<open>CYHY_MAILER_DIR\<close> and the five functions. None of them binds
  \<open>cyhy_org_ids\<close>, and no function declares it global or assigns it.
\<close>

definition module_names :: "string list" where
  "module_names =
     [''distutils'', ''logging'', ''os'', ''subprocess'', ''sys'', ''docopt'', ''Config'',
      ''database'', ''util'', ''NotificationGenerator'', ''current_time'',
      ''NOTIFICATIONS_BASE_DIR'', ''NOTIFICATION_ARCHIVE_DIR'', ''CYHY_MAILER_DIR'',
      ''create_output_directories'', ''build_notifications_org_list'', ''find_cyhy_parents'',
      ''generate_notification_pdfs'', ''main'']"

definition bound_by_module :: "string \<Rightarrow> bool" where
  "bound_by_module name = (name \<in> set module_names)"

text \<open>The organizations the renderer was called for, in the order of the calls.\<close>

definition rendered :: "event list \<Rightarrow> org_id list" where
  "rendered evs =
     concat (map (\<lambda>ev. case ev of GenerateNotification org \<Rightarrow> [org] | _ \<Rightarrow> []) evs)"

section \<open>Concrete stores and surroundings\<close>

text \<open>
  One marked organization \<open>A\<close> with a pending notification, and a notification
  owned by an organization \<open>Z\<close> that no request document describes.
\<close>

definition org_A :: request_doc where
  "org_A = \<lparr>doc_id = ''A'', report_types = [''CYHY''], children = []\<rparr>"

definition pending_store :: db where
  "pending_store =
     \<lparr>requests = [org_A],
      notifications = [\<lparr>ticket_owner = ''A'', generated_for = []\<rparr>,
                       \<lparr>ticket_owner = ''Z'', generated_for = []\<rparr>]\<rparr>"

text \<open>\<open>A\<close> lists itself among its children.\<close>

definition self_parent_store :: db where
  "self_parent_store =
     \<lparr>requests = [\<lparr>doc_id = ''A'', report_types = [''CYHY''], children = [''A'']\<rparr>],
      notifications = [\<lparr>ticket_owner = ''A'', generated_for = []\<rparr>]\<rparr>"

text \<open>\<open>A\<close> and \<open>B\<close> list each other.\<close>

definition mutual_parents_store :: db where
  "mutual_parents_store =
     \<lparr>requests = [\<lparr>doc_id = ''A'', report_types = [''CYHY''], children = [''B'']\<rparr>,
                  \<lparr>doc_id = ''B'', report_types = [''CYHY''], children = [''A'']\<rparr>],
      notifications = [\<lparr>ticket_owner = ''A'', generated_for = []\<rparr>]\<rparr>"

text \<open>
  \<open>A\<close> has the marked parents \<open>P\<close> and \<open>Q\<close>, both children of \<open>G\<close>, so
  \<open>G\<close> is reached over two paths; \<open>U\<close> is a parent of \<open>A\<close> without the marker.
\<close>

definition chain_store :: db where
  "chain_store =
     \<lparr>requests = [\<lparr>doc_id = ''A'', report_types = [''CYHY''], children = []\<rparr>,
                  \<lparr>doc_id = ''P'', report_types = [''CYHY''], children = [''A'']\<rparr>,
                  \<lparr>doc_id = ''G'', report_types = [''CYHY''], children = [''P'', ''Q'']\<rparr>,
                  \<lparr>doc_id = ''Q'', report_types = [''CYHY''], children = [''A'']\<rparr>,
                  \<lparr>doc_id = ''U'', report_types = [''WEEKLY''], children = [''A'']\<rparr>],
      notifications = [\<lparr>ticket_owner = ''A'', generated_for = []\<rparr>,
                       \<lparr>ticket_owner = ''U'', generated_for = []\<rparr>]\<rparr>"

definition chain_rank :: "org_id \<Rightarrow> nat" where
  "chain_rank org = (if org = ''A'' then 2 else if org = ''G'' then 0 else 1)"

text \<open>A renderer that answers \<open>(False, None)\<close> for every organization.\<close>

definition renderer_unknown :: renderer where
  "renderer_unknown d org = ((False, None), d)"

text \<open>
  A renderer that, for an organization owning notifications, marks them as generated
  for it and reports an encrypted PDF, and otherwise reports that it found none.
\<close>

definition renderer_final :: renderer where
  "renderer_final d org =
     (if \<exists>n \<in> set (notifications d). ticket_owner n = org then
        ((True, Some \<lparr>res_notifications = filter (\<lambda>n. ticket_owner n = org) (notifications d)\<rparr>),
         d\<lparr>notifications :=
              map (\<lambda>n. if ticket_owner n = org then n\<lparr>generated_for := [org]\<rparr> else n)
                (notifications d)\<rparr>)
      else ((False, Some \<lparr>res_notifications = []\<rparr>), d))"

text \<open>
  Surroundings in which the \<open>latest\<close> link does not exist yet and the mailer can be
  started; in the last one \<open>docker\<close> is not found.
\<close>

definition env_unknown :: env where
  "env_unknown = \<lparr>log_level_valid = True, generate_notification = renderer_unknown,
                   latest = Absent, mailer_dir_exists = True, docker_found = True,
                   communicate = ([], []), returncode = 0\<rparr>"

definition env_mail_fails :: env where
  "env_mail_fails = \<lparr>log_level_valid = True, generate_notification = renderer_final,
                      latest = Absent, mailer_dir_exists = True, docker_found = True,
                      communicate = ([], ''no route to host''), returncode = 1\<rparr>"

definition env_mail_sent :: env where
  "env_mail_sent = \<lparr>log_level_valid = True, generate_notification = renderer_final,
                     latest = Absent, mailer_dir_exists = True, docker_found = True,
                     communicate = ([], []), returncode = 0\<rparr>"


section \<open>Record reaper\<close>

lemma delete_many_count: "fst (delete_many q d) = length (filter (matches q) (notifications d))"
  by (simp add: delete_many_def)

lemma delete_many_store:
  "notifications (snd (delete_many q d)) = filter (\<lambda>n. \<not> matches q n) (notifications d)"
  by (simp add: delete_many_def)


text \<open>
  C9. The delivered-batch cleanup is idempotent: after one deletion of the
  notification documents with non-empty \<open>generated_for\<close>, a second deletion
  reports a count of zero and leaves the store as the first one left it.
\<close>

theorem delivered_batch_cleanup_idempotent:
  "fst (delete_many GeneratedForNeEmpty (snd (delete_many GeneratedForNeEmpty d))) = 0 \<and>
   snd (delete_many GeneratedForNeEmpty (snd (delete_many GeneratedForNeEmpty d)))
     = snd (delete_many GeneratedForNeEmpty d)"
  by (simp add: delete_many_def)

section \<open>Org resolver: the recursive parent lookup\<close>

text \<open>
  Both loops fail as soon as one recursive call fails, and otherwise collect the
  identifiers they iterate over together with what the recursive calls return.
\<close>

lemma parents_loop_char:
  "parents_loop recur rs acc =
     (if \<exists>p \<in> doc_id ` set rs. recur p = None then None
      else Some (acc \<union> doc_id ` set rs \<union> (\<Union>p \<in> doc_id ` set rs. the (recur p))))"
  by (induction rs arbitrary: acc) (auto split: option.splits)

lemma owners_loop_char:
  "owners_loop recur rs ntg cpi =
     (if \<exists>p \<in> doc_id ` set rs. recur p = None then None
      else Some (ntg \<union> doc_id ` set rs, cpi \<union> (\<Union>p \<in> doc_id ` set rs. the (recur p))))"
  by (induction rs arbitrary: ntg cpi) (auto split: option.splits)

text \<open>The query for the parents of \<open>org\<close> returns the heads of its parent edges.\<close>

lemma parent_ids: "doc_id ` set (find_parent_requests d org) = {p. (org, p) \<in> spec_parent_edges d}"
  by (auto simp: find_parent_requests_def spec_parent_edges_def)

lemma spec_parent_edges_code:
  "spec_parent_edges d =
     (\<Union>r \<in> set (requests d).
        if ''CYHY'' \<in> set (report_types r) then (\<lambda>c. (c, doc_id r)) ` set (children r) else {})"
  unfolding spec_parent_edges_def by (rule set_eqI) (force split: if_splits)

lemma finite_spec_parent_edges: "finite (spec_parent_edges d)"
proof -
  have "spec_parent_edges d \<subseteq> (\<Union>r \<in> set (requests d). set (children r)) \<times> doc_id ` set (requests d)"
    by (auto simp: spec_parent_edges_def)
  then show ?thesis
    by (rule finite_subset) simp
qed

lemma finite_parents: "finite {p. (org, p) \<in> spec_parent_edges d}"
proof -
  have "{p. (org, p) \<in> spec_parent_edges d} \<subseteq> snd ` spec_parent_edges d" by force
  then show ?thesis
    by (rule finite_subset) (simp add: finite_spec_parent_edges)
qed

lemma spec_ancestors_unfold:
  "spec_ancestors d org =
     {p. (org, p) \<in> spec_parent_edges d} \<union> (\<Union>p \<in> {p. (org, p) \<in> spec_parent_edges d}. spec_ancestors d p)"
proof -
  have "(org, x) \<in> (spec_parent_edges d)\<^sup>+ \<longleftrightarrow>
        (org, x) \<in> spec_parent_edges d \<or>
        (\<exists>p. (org, p) \<in> spec_parent_edges d \<and> (p, x) \<in> (spec_parent_edges d)\<^sup>+)" for x
    by (metis converse_tranclE r_into_trancl' trancl_into_trancl2)
  then show ?thesis
    unfolding spec_ancestors_def by auto
qed

lemma find_cyhy_parents_Suc:
  "find_cyhy_parents (Suc n) d org =
     (if \<exists>p. (org, p) \<in> spec_parent_edges d \<and> find_cyhy_parents n d p = None then None
      else Some ({p. (org, p) \<in> spec_parent_edges d} \<union>
                 (\<Union>p \<in> {p. (org, p) \<in> spec_parent_edges d}. the (find_cyhy_parents n d p))))"
  by (simp only: find_cyhy_parents.simps parents_loop_char parent_ids) simp

declare find_cyhy_parents.simps(2) [simp del]

text \<open>Whatever the lookup returns is the set of ancestors.\<close>

lemma find_cyhy_parents_sound:
  "find_cyhy_parents n d org = Some S \<Longrightarrow> S = spec_ancestors d org"
proof (induction n arbitrary: org S)
  case 0
  then show ?case by simp
next
  case (Suc n)
  from Suc.prems have all: "\<forall>p. (org, p) \<in> spec_parent_edges d \<longrightarrow> find_cyhy_parents n d p \<noteq> None"
    and S: "S = {p. (org, p) \<in> spec_parent_edges d} \<union>
                 (\<Union>p \<in> {p. (org, p) \<in> spec_parent_edges d}. the (find_cyhy_parents n d p))"
    by (auto simp: find_cyhy_parents_Suc split: if_splits)
  have "the (find_cyhy_parents n d p) = spec_ancestors d p" if "(org, p) \<in> spec_parent_edges d" for p
    using all that Suc.IH by fastforce
  with S show ?case
    by (subst spec_ancestors_unfold) auto
qed

text \<open>A result found within some recursion depth is found within every larger one.\<close>

lemma find_cyhy_parents_mono_Suc:
  "find_cyhy_parents n d org = Some S \<Longrightarrow> find_cyhy_parents (Suc n) d org = Some S"
proof (induction n arbitrary: org S)
  case 0
  then show ?case by simp
next
  case (Suc n)
  from Suc.prems have all: "\<forall>p. (org, p) \<in> spec_parent_edges d \<longrightarrow> find_cyhy_parents n d p \<noteq> None"
    and S: "S = {p. (org, p) \<in> spec_parent_edges d} \<union>
                 (\<Union>p \<in> {p. (org, p) \<in> spec_parent_edges d}. the (find_cyhy_parents n d p))"
    by (auto simp: find_cyhy_parents_Suc split: if_splits)
  have eq: "find_cyhy_parents (Suc n) d p = find_cyhy_parents n d p"
    if "(org, p) \<in> spec_parent_edges d" for p
    using all that Suc.IH by fastforce
  have "find_cyhy_parents (Suc (Suc n)) d org =
     (if \<exists>p. (org, p) \<in> spec_parent_edges d \<and> find_cyhy_parents (Suc n) d p = None then None
      else Some ({p. (org, p) \<in> spec_parent_edges d} \<union>
                 (\<Union>p \<in> {p. (org, p) \<in> spec_parent_edges d}. the (find_cyhy_parents (Suc n) d p))))"
    by (rule find_cyhy_parents_Suc)
  also have "\<dots> = Some S"
    using all eq S by auto
  finally show ?case .
qed

lemma find_cyhy_parents_mono:
  "find_cyhy_parents n d org = Some S \<Longrightarrow> n \<le> m \<Longrightarrow> find_cyhy_parents m d org = Some S"
proof (induction m)
  case 0
  then show ?case by simp
next
  case (Suc m)
  show ?case
  proof (cases "n = Suc m")
    case True
    with Suc.prems show ?thesis by simp
  next
    case False
    with Suc.prems have "n \<le> m" by simp
    with Suc have "find_cyhy_parents m d org = Some S" by simp
    then show ?thesis by (rule find_cyhy_parents_mono_Suc)
  qed
qed

lemma common_depth:
  assumes "finite A" and "\<And>p. p \<in> A \<Longrightarrow> \<exists>n. find_cyhy_parents n d p = Some (f p)"
  shows "\<exists>n. \<forall>p \<in> A. find_cyhy_parents n d p = Some (f p)"
  using assms
proof (induction A)
  case empty
  then show ?case by simp
next
  case (insert x F)
  then obtain n where n: "\<forall>p \<in> F. find_cyhy_parents n d p = Some (f p)" by auto
  from insert.prems obtain m where m: "find_cyhy_parents m d x = Some (f x)" by auto
  have "\<forall>p \<in> insert x F. find_cyhy_parents (max n m) d p = Some (f p)"
    using n m by (auto intro: find_cyhy_parents_mono)
  then show ?case ..
qed

text \<open>
  Where no cycle is reachable, the parent edges below \<open>org\<close> are well-founded, and
  the lookup returns by induction along them.
\<close>

lemma find_cyhy_parents_total:
  assumes "cycle_free_from d org"
  shows "\<exists>n. find_cyhy_parents n d org = Some (spec_ancestors d org)"
proof -
  let ?E = "spec_parent_edges d"
  let ?R = "{(c, p). (c, p) \<in> ?E \<and> (org, c) \<in> ?E\<^sup>*}"
  have sub: "?R \<subseteq> ?E" by auto
  have fin: "finite ?R" using sub finite_spec_parent_edges by (rule finite_subset)
  have "acyclic ?R"
  proof (rule acyclicI, rule allI, rule notI)
    fix x assume x: "(x, x) \<in> ?R\<^sup>+"
    then obtain y where "(x, y) \<in> ?R" by (auto dest: tranclD)
    then have reach: "(org, x) \<in> ?E\<^sup>*" by simp
    from x sub have "(x, x) \<in> ?E\<^sup>+" by (meson trancl_mono)
    with reach assms show False by (auto simp: cycle_free_from_def)
  qed
  with fin have wf: "wf (?R\<inverse>)" by (rule finite_acyclic_wf_converse)
  have "(org, c) \<in> ?E\<^sup>* \<longrightarrow> (\<exists>n. find_cyhy_parents n d c = Some (spec_ancestors d c))" for c
    using wf
  proof (induction c rule: wf_induct_rule)
    case (less c)
    show ?case
    proof
      assume reach: "(org, c) \<in> ?E\<^sup>*"
      have "\<exists>n. find_cyhy_parents n d p = Some (spec_ancestors d p)"
        if "p \<in> {p. (c, p) \<in> ?E}" for p
      proof -
        from that have e: "(c, p) \<in> ?E" by simp
        with reach have "(p, c) \<in> ?R\<inverse>" by simp
        moreover from reach e have "(org, p) \<in> ?E\<^sup>*" by (rule rtrancl_into_rtrancl)
        ultimately show ?thesis using less by blast
      qed
      with finite_parents obtain n where
        n: "\<forall>p \<in> {p. (c, p) \<in> ?E}. find_cyhy_parents n d p = Some (spec_ancestors d p)"
        using common_depth by blast
      have "find_cyhy_parents (Suc n) d c = Some (spec_ancestors d c)"
        using n by (subst spec_ancestors_unfold) (simp add: find_cyhy_parents_Suc)
      then show "\<exists>n. find_cyhy_parents n d c = Some (spec_ancestors d c)" ..
    qed
  qed
  then show ?thesis by blast
qed

text \<open>Where a cycle is reachable, the lookup exceeds every recursion depth.\<close>

lemma find_cyhy_parents_parent_None:
  "(c, p) \<in> spec_parent_edges d \<Longrightarrow> find_cyhy_parents n d p = None
     \<Longrightarrow> find_cyhy_parents (Suc n) d c = None"
  by (auto simp: find_cyhy_parents_Suc)

lemma find_cyhy_parents_on_cycle:
  "(p, p) \<in> (spec_parent_edges d)\<^sup>+ \<Longrightarrow> find_cyhy_parents n d p = None"
proof (induction n arbitrary: p)
  case 0
  then show ?case by simp
next
  case (Suc n)
  from Suc.prems obtain q where pq: "(p, q) \<in> spec_parent_edges d"
    and qp: "(q, p) \<in> (spec_parent_edges d)\<^sup>*"
    by (auto dest: tranclD)
  from qp pq have "(q, q) \<in> (spec_parent_edges d)\<^sup>+" by (rule rtrancl_into_trancl1)
  then have "find_cyhy_parents n d q = None" by (rule Suc.IH)
  with pq show ?case by (rule find_cyhy_parents_parent_None)
qed

lemma find_cyhy_parents_reaches_None:
  "(org, p) \<in> (spec_parent_edges d)\<^sup>* \<Longrightarrow> (\<And>n. find_cyhy_parents n d p = None)
     \<Longrightarrow> find_cyhy_parents n d org = None"
proof (induction arbitrary: n rule: converse_rtrancl_induct)
  case base
  then show ?case by simp
next
  case (step a b)
  show ?case
  proof (cases n)
    case 0
    then show ?thesis by simp
  next
    case (Suc m)
    from step have "find_cyhy_parents m d b = None" by simp
    with step.hyps(1) show ?thesis unfolding Suc by (rule find_cyhy_parents_parent_None)
  qed
qed

lemma find_cyhy_parents_diverges:
  assumes "\<not> cycle_free_from d org"
  shows "find_cyhy_parents n d org = None"
proof -
  from assms obtain p where "(org, p) \<in> (spec_parent_edges d)\<^sup>*" "(p, p) \<in> (spec_parent_edges d)\<^sup>+"
    by (auto simp: cycle_free_from_def)
  then show ?thesis
    by (auto intro: find_cyhy_parents_reaches_None find_cyhy_parents_on_cycle)
qed

subsection \<open>The three stores\<close>

lemma ranked_acyclic:
  assumes "\<And>c p. (c, p) \<in> spec_parent_edges d \<Longrightarrow> rank p < (rank c :: nat)"
  shows "(p, p) \<notin> (spec_parent_edges d)\<^sup>+"
proof -
  have "acyclic (spec_parent_edges d)"
    by (rule acyclicI_order [where f = rank]) (use assms in auto)
  then show ?thesis by (simp add: acyclic_def)
qed

lemma self_edges: "spec_parent_edges self_parent_store = {(''A'', ''A'')}"
  by (simp add: spec_parent_edges_code self_parent_store_def)

lemma self_not_free: "\<not> cycle_free_from self_parent_store ''A''"
  by (auto simp: cycle_free_from_def self_edges)

lemma chain_edges:
  "spec_parent_edges chain_store = {(''A'', ''P''), (''P'', ''G''), (''Q'', ''G''), (''A'', ''Q'')}"
  by (simp add: spec_parent_edges_code chain_store_def insert_commute)

lemma chain_acyclic: "(p, p) \<notin> (spec_parent_edges chain_store)\<^sup>+"
  by (rule ranked_acyclic [where rank = chain_rank]) (auto simp: chain_edges chain_rank_def)

lemma chain_free: "cycle_free_from chain_store ''A''"
  by (simp add: cycle_free_from_def chain_acyclic)

lemma chain_eval: "find_cyhy_parents 3 chain_store ''A'' = Some {''P'', ''G'', ''Q''}"
  by (simp add: numeral_3_eq_3 find_cyhy_parents.simps(2) find_parent_requests_def chain_store_def
      insert_commute)

text \<open>
  C2, as the code has it. \<open>find_cyhy_parents\<close> keeps no visited set. For every store
  and organization from which no cycle of marked-parent edges can be reached, it
  returns, within some recursion depth, exactly the marked ancestors of the
  organization, grandparents and beyond. A reachable cycle is excluded: there the
  lookup does not return.
\<close>

theorem find_cyhy_parents_returns_ancestors:
  assumes "cycle_free_from d org"
  shows "\<exists>n. find_cyhy_parents n d org = Some (spec_ancestors d org)"
  using assms by (rule find_cyhy_parents_total)

text \<open>
  On the store where \<open>A\<close> has the parents \<open>P\<close> and \<open>Q\<close> and the grandparent
  \<open>G\<close>, no cycle is reachable and the lookup returns the three of them.
\<close>

theorem find_cyhy_parents_returns_ancestors_witness:
  "cycle_free_from chain_store ''A'' \<and>
   spec_ancestors chain_store ''A'' = {''P'', ''G'', ''Q''} \<and>
   (\<exists>n. find_cyhy_parents n chain_store ''A'' = Some {''P'', ''G'', ''Q''})"
proof -
  have anc: "spec_ancestors chain_store ''A'' = {''P'', ''G'', ''Q''}"
    using find_cyhy_parents_sound [OF chain_eval] by simp
  from find_cyhy_parents_returns_ancestors [OF chain_free]
  have "\<exists>n. find_cyhy_parents n chain_store ''A'' = Some {''P'', ''G'', ''Q''}"
    unfolding anc .
  with chain_free anc show ?thesis by simp
qed

text \<open>
  C2 as stated fails on the store where \<open>A\<close> is its own parent: at every recursion
  depth the lookup of the parents of \<open>A\<close> ends in the recursion error, and never
  returns the set holding \<open>A\<close>.
\<close>

theorem find_cyhy_parents_self_parent_never_returns:
  "\<forall>n. find_cyhy_parents n self_parent_store ''A'' = None"
  using find_cyhy_parents_diverges [OF self_not_free] by simp

section \<open>Org resolver: the organization list\<close>

lemma seed_ids: "doc_id ` set (find_owner_requests d (distinct_ticket_owner d)) = spec_seeds d"
proof (rule set_eqI)
  fix s
  have "s \<in> doc_id ` set (find_owner_requests d (distinct_ticket_owner d)) \<longleftrightarrow>
        (\<exists>r \<in> set (requests d). s = doc_id r \<and> doc_id r \<in> ticket_owner ` set (notifications d)
              \<and> ''CYHY'' \<in> set (report_types r))"
    by (auto simp: find_owner_requests_def distinct_ticket_owner_def)
  also have "\<dots> \<longleftrightarrow> s \<in> spec_seeds d"
    unfolding spec_seeds_def by (simp add: image_iff) metis
  finally show "s \<in> doc_id ` set (find_owner_requests d (distinct_ticket_owner d)) \<longleftrightarrow> s \<in> spec_seeds d" .
qed

lemma finite_spec_seeds: "finite (spec_seeds d)"
  unfolding seed_ids [symmetric] by simp

lemma build_notifications_org_list_char:
  "build_notifications_org_list n d =
     (if \<exists>s \<in> spec_seeds d. find_cyhy_parents n d s = None then None
      else Some (spec_seeds d \<union> (\<Union>s \<in> spec_seeds d. the (find_cyhy_parents n d s))))"
  by (simp add: build_notifications_org_list_def owners_loop_char seed_ids)

text \<open>On every store, whatever the resolver returns is the seeds with their ancestors.\<close>

lemma build_sound:
  assumes "build_notifications_org_list n d = Some S"
  shows "S = spec_resolved d"
proof -
  from assms have all: "\<forall>s \<in> spec_seeds d. find_cyhy_parents n d s \<noteq> None"
    and S: "S = spec_seeds d \<union> (\<Union>s \<in> spec_seeds d. the (find_cyhy_parents n d s))"
    by (auto simp: build_notifications_org_list_char split: if_splits)
  have "the (find_cyhy_parents n d s) = spec_ancestors d s" if "s \<in> spec_seeds d" for s
    using all that find_cyhy_parents_sound by fastforce
  with S show ?thesis by (simp add: spec_resolved_def)
qed

lemma seeds_cycle_free_iff: "seeds_cycle_free d = (\<forall>s \<in> spec_seeds d. cycle_free_from d s)"
  by (auto simp: seeds_cycle_free_def cycle_free_from_def)

lemma build_total:
  assumes "seeds_cycle_free d"
  shows "\<exists>n. build_notifications_org_list n d = Some (spec_resolved d)"
proof -
  have "\<exists>n. find_cyhy_parents n d s = Some (spec_ancestors d s)" if "s \<in> spec_seeds d" for s
    using assms that by (simp add: seeds_cycle_free_iff find_cyhy_parents_total)
  with finite_spec_seeds obtain n where
    n: "\<forall>s \<in> spec_seeds d. find_cyhy_parents n d s = Some (spec_ancestors d s)"
    using common_depth by blast
  then have "build_notifications_org_list n d = Some (spec_resolved d)"
    by (simp add: build_notifications_org_list_char spec_resolved_def)
  then show ?thesis ..
qed

lemma build_diverges:
  assumes "\<not> seeds_cycle_free d"
  shows "build_notifications_org_list n d = None"
proof -
  from assms obtain s where "s \<in> spec_seeds d" "\<not> cycle_free_from d s"
    by (auto simp: seeds_cycle_free_iff)
  then show ?thesis
    by (auto simp: build_notifications_org_list_char dest: find_cyhy_parents_diverges)
qed

lemma empty_seeds: "spec_seeds d = {} \<Longrightarrow> build_notifications_org_list n d = Some {}"
  by (simp add: build_notifications_org_list_char)

lemma mutual_edges: "spec_parent_edges mutual_parents_store = {(''A'', ''B''), (''B'', ''A'')}"
  by (simp add: spec_parent_edges_code mutual_parents_store_def)

lemma mutual_seeds: "spec_seeds mutual_parents_store = {''A''}"
  by (simp add: seed_ids [symmetric] find_owner_requests_def distinct_ticket_owner_def
      mutual_parents_store_def)

lemma mutual_not_free: "\<not> seeds_cycle_free mutual_parents_store"
proof -
  have "(''A'', ''A'') \<in> (spec_parent_edges mutual_parents_store)\<^sup>+"
    unfolding mutual_edges by (rule trancl_into_trancl [of _ "''B''", OF r_into_trancl]) simp_all
  then show ?thesis
    by (auto simp: seeds_cycle_free_def mutual_seeds)
qed

lemma chain_seeds_free: "seeds_cycle_free chain_store"
  by (simp add: seeds_cycle_free_def chain_acyclic)

lemma chain_build: "build_notifications_org_list 3 chain_store = Some {''A'', ''P'', ''G'', ''Q''}"
  by (simp add: build_notifications_org_list_def find_owner_requests_def distinct_ticket_owner_def
      numeral_3_eq_3 find_cyhy_parents.simps(2) find_parent_requests_def chain_store_def
      insert_commute)

text \<open>
  C8, as the code has it. For every store in which no organization reachable from a
  seed over marked-parent edges lies on a cycle, the resolver returns, within some
  recursion depth, exactly the union of the seed set and the marked ancestors of the
  seeds: a superset of the seeds, nothing unreachable from them, each ancestor once
  however many paths lead to it, and the empty set when there is no seed.
\<close>

theorem resolver_returns_seeds_and_ancestors:
  assumes "seeds_cycle_free d"
  shows "\<exists>n. build_notifications_org_list n d
              = Some (spec_seeds d \<union> (\<Union>s \<in> spec_seeds d. spec_ancestors d s))"
  using build_total [OF assms] by (simp add: spec_resolved_def)

text \<open>
  On the store where \<open>G\<close> is an ancestor of the seed \<open>A\<close> over \<open>P\<close> and over
  \<open>Q\<close>, the resolver returns the four organizations; the unmarked \<open>U\<close> is neither
  a seed nor an ancestor.
\<close>

theorem resolver_returns_seeds_and_ancestors_witness:
  "seeds_cycle_free chain_store \<and>
   (\<exists>n. build_notifications_org_list n chain_store = Some {''A'', ''P'', ''G'', ''Q''})"
proof -
  have "spec_resolved chain_store = {''A'', ''P'', ''G'', ''Q''}"
    using build_sound [OF chain_build] by simp
  then have res: "spec_seeds chain_store \<union> (\<Union>s \<in> spec_seeds chain_store. spec_ancestors chain_store s)
      = {''A'', ''P'', ''G'', ''Q''}"
    by (simp add: spec_resolved_def)
  from resolver_returns_seeds_and_ancestors [OF chain_seeds_free]
  have "\<exists>n. build_notifications_org_list n chain_store = Some {''A'', ''P'', ''G'', ''Q''}"
    unfolding res .
  with chain_seeds_free show ?thesis by simp
qed

text \<open>
  C8 as stated fails on the store where the seed \<open>A\<close> and \<open>B\<close> are parents of
  each other: the resolver has no output at any recursion depth.
\<close>

theorem resolver_mutual_parents_never_returns:
  "\<not> (\<exists>n S. build_notifications_org_list n mutual_parents_store = Some S)"
  using build_diverges [OF mutual_not_free] by simp

section \<open>Artifact generator\<close>

lemma after_simps [simp]: "after evs (num, d, evs') = (num, d, evs @ evs')"
  by (simp add: after_def)

lemma fst_after [simp]: "fst (after evs r) = fst r"
  by (cases r) simp

lemma events_after [simp]: "snd (snd (after evs r)) = evs @ snd (snd r)"
  by (cases r) simp

lemma rendered_simps [simp]:
  "rendered [] = []"
  "rendered (GenerateNotification org # evs) = org # rendered evs"
  "rendered (Log l m # evs) = rendered evs"
  "rendered (CreateOutputDirectories # evs) = rendered evs"
  "rendered (ChdirArchive # evs) = rendered evs"
  "rendered (RemoveLatest # evs) = rendered evs"
  "rendered (SymlinkLatest # evs) = rendered evs"
  "rendered (ChdirMailer # evs) = rendered evs"
  "rendered (DockerComposeUp # evs) = rendered evs"
  "rendered (DeleteMany q # evs) = rendered evs"
  "rendered (evs @ evs') = rendered evs @ rendered evs'"
  by (simp_all add: rendered_def)

text \<open>
  Without an unknown outcome the loop calls the renderer for every organization, adds
  one to the counter for each encrypted PDF and logs no error.
\<close>

lemma generate_loop_no_unknown:
  "UnknownFailure \<notin> set (render_all gen d org_ids) \<Longrightarrow>
   fst (generate_loop gen org_ids num d) =
     num + int (length (filter (\<lambda>x. x = Encrypted) (render_all gen d org_ids))) \<and>
   rendered (snd (snd (generate_loop gen org_ids num d))) = org_ids \<and>
   (\<forall>m. Log ERROR m \<notin> set (snd (snd (generate_loop gen org_ids num d))))"
proof (induction org_ids arbitrary: num d)
  case Nil
  then show ?case by simp
next
  case (Cons org rest)
  obtain was_encrypted res d' where g: "gen d org = ((was_encrypted, res), d')"
    by (metis surj_pair)
  with Cons.prems have rest: "UnknownFailure \<notin> set (render_all gen d' rest)"
    and c: "classify (was_encrypted, res) \<noteq> UnknownFailure"
    by auto
  show ?case
  proof (cases was_encrypted)
    case True
    with g Cons.IH [OF rest, of "num + 1"] show ?thesis
      by (simp add: classify_def)
  next
    case False
    with c obtain r where r: "res = Some r" "res_notifications r = []"
      by (auto simp: classify_def split: option.splits if_splits)
    with False g Cons.IH [OF rest, of num] show ?thesis
      by (simp add: classify_def)
  qed
qed

text \<open>
  At the first unknown outcome the loop returns \<open>-1\<close> after the error message, and
  the renderer is not called for the organizations that follow.
\<close>

lemma generate_loop_unknown:
  "gen d org = ((False, res), d') \<Longrightarrow> classify (False, res) = UnknownFailure \<Longrightarrow>
   generate_loop gen (org # rest) num d =
     (- 1, d', [Log INFO (StartingPdf org), GenerateNotification org,
                Log ERROR (UnknownErrorOccurred org)])"
  by (auto simp: classify_def split: option.splits if_splits)

lemma generate_loop_stops:
  "UnknownFailure \<in> set (render_all gen d org_ids) \<Longrightarrow>
   fst (generate_loop gen org_ids num d) = - 1 \<and>
   rendered (snd (snd (generate_loop gen org_ids num d))) =
     take (Suc (length (takeWhile (\<lambda>x. x \<noteq> UnknownFailure) (render_all gen d org_ids)))) org_ids"
proof (induction org_ids arbitrary: num d)
  case Nil
  then show ?case by simp
next
  case (Cons org rest)
  obtain was_encrypted res d' where g: "gen d org = ((was_encrypted, res), d')"
    by (metis surj_pair)
  show ?case
  proof (cases "classify (was_encrypted, res) = UnknownFailure")
    case True
    then have "\<not> was_encrypted" by (auto simp: classify_def split: if_splits)
    with g True show ?thesis
      using generate_loop_unknown [of gen d org res d' rest num] by simp
  next
    case False
    with g Cons.prems have rest: "UnknownFailure \<in> set (render_all gen d' rest)" by auto
    show ?thesis
    proof (cases was_encrypted)
      case True
      with g False Cons.IH [OF rest, of "num + 1"] show ?thesis by simp
    next
      case ne: False
      with False obtain r where r: "res = Some r" "res_notifications r = []"
        by (auto simp: classify_def split: option.splits if_splits)
      with ne g False Cons.IH [OF rest, of num] show ?thesis by simp
    qed
  qed
qed

text \<open>The generator itself neither starts the mailer nor logs that there is nothing to email.\<close>

lemma generate_loop_events:
  "DockerComposeUp \<notin> set (snd (snd (generate_loop gen org_ids num d))) \<and>
   Log INFO NothingToEmail \<notin> set (snd (snd (generate_loop gen org_ids num d)))"
proof (induction org_ids arbitrary: num d)
  case Nil
  then show ?case by simp
next
  case (Cons org rest)
  obtain was_encrypted res d' where g: "gen d org = ((was_encrypted, res), d')"
    by (metis surj_pair)
  with Cons.IH [of "num + 1" d'] Cons.IH [of num d'] show ?case
    by (simp split: option.splits)
qed

text \<open>
  C7. When the renderer answers with an encrypted PDF or with no notifications found
  for every organization of the list, \<open>generate_notification_pdfs\<close> calls it once
  for each of them, logs no error, and returns the number of encrypted PDFs.
\<close>

theorem generate_notification_pdfs_counts_encrypted:
  assumes "UnknownFailure \<notin> set (render_all gen d org_ids)"
  shows "fst (generate_notification_pdfs gen d org_ids) =
           int (length (filter (\<lambda>x. x = Encrypted) (render_all gen d org_ids))) \<and>
         rendered (snd (snd (generate_notification_pdfs gen d org_ids))) = org_ids \<and>
         (\<forall>m. Log ERROR m \<notin> set (snd (snd (generate_notification_pdfs gen d org_ids))))"
  using generate_loop_no_unknown [OF assms, of 0] by (simp add: generate_notification_pdfs_def)

text \<open>
  For \<open>A\<close>, which owns a notification, the renderer reports an encrypted PDF, for
  \<open>B\<close> it finds none: the count is one.
\<close>

theorem generate_notification_pdfs_counts_encrypted_witness:
  "render_all renderer_final pending_store [''A'', ''B''] = [Encrypted, NoContentFound] \<and>
   fst (generate_notification_pdfs renderer_final pending_store [''A'', ''B'']) = 1 \<and>
   rendered (snd (snd (generate_notification_pdfs renderer_final pending_store [''A'', ''B''])))
     = [''A'', ''B'']"
proof -
  have r: "render_all renderer_final pending_store [''A'', ''B''] = [Encrypted, NoContentFound]"
    by (simp add: renderer_final_def pending_store_def classify_def)
  then have h: "UnknownFailure \<notin> set (render_all renderer_final pending_store [''A'', ''B''])"
    by simp
  from generate_notification_pdfs_counts_encrypted [OF h] r show ?thesis
    by simp
qed

section \<open>The run\<close>

text \<open>
  When the mailer can be started, it is started exactly when the value the generator
  returned is not zero; otherwise an exception ends the run.
\<close>

lemma email_notifications_Inr:
  "(\<exists>r. email_notifications e num d = Inr r) =
     (num = 0 \<or> (mailer_dir_exists e \<and> docker_found e))"
  by (auto simp: email_notifications_def split: prod.splits)

lemma email_notifications_gate:
  assumes "email_notifications e num d = Inr (d2, emailed)"
  shows "(DockerComposeUp \<in> set emailed) = (num \<noteq> 0)"
    and "(Log INFO NothingToEmail \<in> set emailed) = (num = 0)"
  using assms by (auto simp: email_notifications_def split: prod.splits if_splits)

lemma relink_latest_events:
  "relink_latest l = Inr linked \<Longrightarrow>
     DockerComposeUp \<notin> set linked \<and> Log INFO NothingToEmail \<notin> set linked"
  by (cases l) auto

lemma main_delivery_gate:
  assumes "log_level_valid e"
    and "relink_latest (latest e) = Inr linked"
    and "mailer_dir_exists e" and "docker_found e"
  shows "(DockerComposeUp \<in> set (snd (snd (main (Some ids) e d)))) =
           (fst (generate_notification_pdfs (generate_notification e) d ids) \<noteq> 0)"
    and "(Log INFO NothingToEmail \<in> set (snd (snd (main (Some ids) e d)))) =
           (fst (generate_notification_pdfs (generate_notification e) d ids) = 0)"
proof -
  obtain num d1 generated where
    g: "generate_notification_pdfs (generate_notification e) d ids = (num, d1, generated)"
    by (metis surj_pair)
  from assms(3,4) obtain d2 emailed where m: "email_notifications e num d1 = Inr (d2, emailed)"
    using email_notifications_Inr [of e num d1] by auto
  have no: "DockerComposeUp \<notin> set generated" "Log INFO NothingToEmail \<notin> set generated"
    using generate_loop_events [of "generate_notification e" ids 0 d] g
    by (simp_all add: generate_notification_pdfs_def)
  have nl: "DockerComposeUp \<notin> set linked" "Log INFO NothingToEmail \<notin> set linked"
    using relink_latest_events [OF assms(2)] by simp_all
  have ev: "snd (snd (main (Some ids) e d)) =
      [CreateOutputDirectories, ChdirArchive] @ generated
      @ [Log INFO (PdfsCreated num)] @ linked @ emailed
      @ [DeleteMany (TicketOwnerNin ids),
         Log INFO (DeletedNonCyhy (fst (delete_many (TicketOwnerNin ids) d2)))]"
    using assms(1,2) g m by (simp add: main_def split: prod.splits)
  show "(DockerComposeUp \<in> set (snd (snd (main (Some ids) e d)))) =
           (fst (generate_notification_pdfs (generate_notification e) d ids) \<noteq> 0)"
    using no nl g email_notifications_gate(1) [OF m] by (simp add: ev)
  show "(Log INFO NothingToEmail \<in> set (snd (snd (main (Some ids) e d)))) =
           (fst (generate_notification_pdfs (generate_notification e) d ids) = 0)"
    using no nl g email_notifications_gate(2) [OF m] by (simp add: ev)
qed




text \<open>
  C5. The module binds no name \<open>cyhy_org_ids\<close>. With the name unbound, every run
  of \<open>main\<close> that passes the logging setup raises the name error once the output
  directory is made and entered, before the renderer is called and with the store
  untouched, and no run returns 0.
\<close>

theorem main_unbound_cyhy_org_ids:
  "\<not> bound_by_module ''cyhy_org_ids'' \<and>
   (log_level_valid e \<longrightarrow>
      main None e d
        = (Raised (NameError ''cyhy_org_ids''), d, [CreateOutputDirectories, ChdirArchive])) \<and>
   fst (main None e d) \<noteq> Returned 0"
  by (simp add: main_def bound_by_module_def module_names_def)

theorem main_unbound_cyhy_org_ids_witness:
  "log_level_valid env_mail_sent \<and>
   main None env_mail_sent pending_store
     = (Raised (NameError ''cyhy_org_ids''), pending_store, [CreateOutputDirectories, ChdirArchive])"
  using main_unbound_cyhy_org_ids [of env_mail_sent pending_store]
  by (simp add: env_mail_sent_def)

text \<open>
  C1, at a run where the code departs from it. With \<open>cyhy_org_ids\<close> bound to
  \<open>A\<close> and \<open>B\<close> and a renderer that answers \<open>(False, None)\<close>, the generator
  stops at \<open>A\<close> and returns \<open>-1\<close>; \<open>main\<close> takes the \<open>-1\<close> for a count that
  is not zero, starts the mailer, deletes the delivered batch and returns 0.
\<close>

theorem unknown_outcome_run_delivers_anyway:
  "main (Some [''A'', ''B'']) env_unknown pending_store =
     (Returned 0,
      \<lparr>requests = [org_A], notifications = [\<lparr>ticket_owner = ''A'', generated_for = []\<rparr>]\<rparr>,
      [CreateOutputDirectories, ChdirArchive,
       Log INFO (StartingPdf ''A''), GenerateNotification ''A'',
       Log ERROR (UnknownErrorOccurred ''A''),
       Log INFO (PdfsCreated (- 1)), SymlinkLatest,
       ChdirMailer, DockerComposeUp, Log INFO EmailsSent,
       DeleteMany GeneratedForNeEmpty, Log INFO (DeletedEmailed 0),
       DeleteMany (TicketOwnerNin [''A'', ''B'']), Log INFO (DeletedNonCyhy 1)])"
  by (simp add: main_def env_unknown_def pending_store_def renderer_unknown_def
      generate_notification_pdfs_def email_notifications_def delete_many_def)

text \<open>
  C3, at a run where the code departs from it. The renderer produces an encrypted PDF
  for \<open>A\<close> and the mailer exits with status 1: \<open>main\<close> logs the failure and then
  deletes the record of \<open>A\<close>, whose \<open>generated_for\<close> is not empty, all the same.
\<close>

theorem failed_delivery_run_deletes_batch:
  "main (Some [''A'']) env_mail_fails pending_store =
     (Returned 0,
      \<lparr>requests = [org_A], notifications = []\<rparr>,
      [CreateOutputDirectories, ChdirArchive,
       Log INFO (StartingPdf ''A''), GenerateNotification ''A'', Log INFO (CreatedPdf ''A''),
       Log INFO (PdfsCreated 1), SymlinkLatest,
       ChdirMailer, DockerComposeUp, Log ERROR FailedToEmail,
       Log ERROR (StderrDetail [] ''no route to host''),
       DeleteMany GeneratedForNeEmpty, Log INFO (DeletedEmailed 1),
       DeleteMany (TicketOwnerNin [''A'']), Log INFO (DeletedNonCyhy 1)])"
  by (simp add: main_def env_mail_fails_def pending_store_def renderer_final_def
      generate_notification_pdfs_def email_notifications_def delete_many_def)

text \<open>
  C4, at a run where the code departs from it. On the store whose resolver output is
  the set holding \<open>A\<close>, \<open>main\<close> as the module stands raises the name error
  without calling the resolver or the renderer; with \<open>cyhy_org_ids\<close> bound to the
  list holding \<open>Z\<close>, the renderer is called for \<open>Z\<close> and not for \<open>A\<close>.
\<close>

theorem generator_input_not_resolver_output:
  "build_notifications_org_list 1 pending_store = Some {''A''} \<and>
   main None env_mail_sent pending_store
     = (Raised (NameError ''cyhy_org_ids''), pending_store, [CreateOutputDirectories, ChdirArchive]) \<and>
   rendered (snd (snd (main (Some [''Z'']) env_mail_sent pending_store))) = [''Z'']"
proof -
  have "build_notifications_org_list 1 pending_store = Some {''A''}"
    by (simp add: build_notifications_org_list_def pending_store_def org_A_def
        find_owner_requests_def distinct_ticket_owner_def find_parent_requests_def
        find_cyhy_parents.simps(2))
  moreover have "main None env_mail_sent pending_store
     = (Raised (NameError ''cyhy_org_ids''), pending_store, [CreateOutputDirectories, ChdirArchive])"
    by (simp add: main_def env_mail_sent_def)
  moreover have "rendered (snd (snd (main (Some [''Z'']) env_mail_sent pending_store))) = [''Z'']"
    by (simp add: main_def env_mail_sent_def pending_store_def renderer_final_def
        generate_notification_pdfs_def email_notifications_def delete_many_def)
  ultimately show ?thesis by simp
qed

text \<open>
  C6, at a run where the code departs from it. With a renderer that answers
  \<open>(False, None)\<close> for the only organization, no PDF is created and the generator
  returns \<open>-1\<close>, which is not greater than zero; the mailer is started all the same
  and the message that there is nothing to email is not logged.
\<close>

theorem delivery_invoked_on_error_sentinel:
  "fst (generate_notification_pdfs (generate_notification env_unknown) pending_store [''A'']) = - 1 \<and>
   DockerComposeUp \<in> set (snd (snd (main (Some [''A'']) env_unknown pending_store))) \<and>
   Log INFO NothingToEmail \<notin> set (snd (snd (main (Some [''A'']) env_unknown pending_store)))"
  by (simp add: main_def env_unknown_def pending_store_def renderer_unknown_def
      generate_notification_pdfs_def email_notifications_def delete_many_def)

end
